theory Spec2Isabelle
  imports Complex_Main "HOL-Library.Log_Nat"
begin

section \<open>Student Grade Analyzer (lecture\_3/main.py)\<close>

text \<open>
  The script keeps one module-level list \<^verbatim>\<open>students\<close> of dictionaries
  \<^verbatim>\<open>{"name": str, "grades": list[int]}\<close>. Every function below takes that list as
  an argument and returns the list it leaves behind, next to what it printed or raised.
  Python's \<^verbatim>\<open>int\<close> is \<open>int\<close>, its \<^verbatim>\<open>float\<close> is \<open>pyfloat\<close> below. Strings are
  \<open>string\<close> and stand for ASCII text: the case conversions are those of the ASCII
  letters, and nothing is said about text with other characters.
\<close>

subsection \<open>Floating point\<close>

text \<open>
  A Python \<^verbatim>\<open>float\<close> is an IEEE 754 double: a finite value, an infinity or a NaN. A
  finite double is given by its value, a rational; the two zeros are one value, which
  differ only in how they print.
\<close>

datatype pyfloat = Finite rat | PosInf | NegInf | NaN

text \<open>Powers of two with an integer exponent, and \<open>\<lfloor>log\<^sub>2 a\<rfloor>\<close> of a positive rational.\<close>

definition pow2 :: "int \<Rightarrow> rat" where
  "pow2 k = (if 0 \<le> k then 2 ^ nat k else 1 / 2 ^ nat (- k))"

definition ilog2 :: "rat \<Rightarrow> int" where
  "ilog2 a =
     (case quotient_of a of
        (n, d) \<Rightarrow> let k = bitlen n - bitlen d in if pow2 k \<le> a then k else k - 1)"

text \<open>Rounding to the nearest integer, a tie going to the even one.\<close>

definition round_half_even :: "rat \<Rightarrow> int" where
  "round_half_even x =
     (let f = \<lfloor>x\<rfloor>; r = x - of_int f
      in if r < 1 / 2 then f else if 1 / 2 < r then f + 1 else if even f then f else f + 1)"

text \<open>
  A double has 53 significant bits and no bit below \<^verbatim>\<open>2**-1074\<close>: around \<open>q\<close> the
  doubles are the multiples of \<open>pow2 (ulp_exponent q)\<close>. \<open>nearest_double\<close> rounds to
  nearest with ties to even, as if the exponent had no upper bound; a result of magnitude
  \<^verbatim>\<open>2**1024\<close> or more is out of range.
\<close>

definition ulp_exponent :: "rat \<Rightarrow> int" where
  "ulp_exponent q = max (ilog2 \<bar>q\<bar> - 52) (- 1074)"

definition nearest_double :: "rat \<Rightarrow> rat" where
  "nearest_double q =
     (if q = 0 then 0
      else of_int (round_half_even (q / pow2 (ulp_exponent q))) * pow2 (ulp_exponent q))"

definition round_double :: "rat \<Rightarrow> pyfloat" where
  "round_double q =
     (let v = nearest_double q
      in if 2 ^ 1024 \<le> v then PosInf else if v \<le> - (2 ^ 1024) then NegInf else Finite v)"

text \<open>
  Addition of doubles: the exact sum rounded; out of range it is an infinity, and no
  exception.
\<close>

fun float_add :: "pyfloat \<Rightarrow> pyfloat \<Rightarrow> pyfloat" where
  "float_add (Finite a) (Finite b) = round_double (a + b)"
| "float_add NaN y = NaN"
| "float_add x NaN = NaN"
| "float_add PosInf NegInf = NaN"
| "float_add NegInf PosInf = NaN"
| "float_add PosInf y = PosInf"
| "float_add x PosInf = PosInf"
| "float_add NegInf y = NegInf"
| "float_add x NegInf = NegInf"

text \<open>Division of a double by a finite double that is not zero.\<close>

fun float_div :: "pyfloat \<Rightarrow> rat \<Rightarrow> pyfloat" where
  "float_div (Finite a) b = round_double (a / b)"
| "float_div PosInf b = (if 0 < b then PosInf else NegInf)"
| "float_div NegInf b = (if 0 < b then NegInf else PosInf)"
| "float_div NaN b = NaN"

text \<open>The comparison \<^verbatim>\<open>x > y\<close> of two doubles; it is false when either is a NaN.\<close>

fun float_gt :: "pyfloat \<Rightarrow> pyfloat \<Rightarrow> bool" where
  "float_gt (Finite a) (Finite b) = (b < a)"
| "float_gt NaN y = False"
| "float_gt x NaN = False"
| "float_gt x PosInf = False"
| "float_gt PosInf y = True"
| "float_gt NegInf y = False"
| "float_gt x NegInf = True"

subsection \<open>Data model\<close>

record student =
  name :: string
  grades :: "int list"

datatype error =
    ValueError string
  | ZeroDivisionError
  | OverflowError
  | TypeError
  | EOFError

text \<open>
  What the script prints. A line that formats a number carries the double that is
  formatted; the digits that \<^verbatim>\<open>:.1f\<close> and \<^verbatim>\<open>:.2f\<close> make of it are not modelled.
\<close>

datatype out =
    Text string
  | StudentAverage string pyfloat
  | StudentNA string
  | MaxAverage pyfloat
  | MinAverage pyfloat
  | OverallAverage pyfloat
  | TopPerformer string pyfloat

subsection \<open>\<^verbatim>\<open>str.capitalize\<close> and \<^verbatim>\<open>str.lower\<close>\<close>

definition upper_char :: "char \<Rightarrow> char" where
  "upper_char c =
     (let n = (of_char c :: nat)
      in if 97 \<le> n \<and> n \<le> 122 then char_of (n - 32) else c)"

definition lower_char :: "char \<Rightarrow> char" where
  "lower_char c =
     (let n = (of_char c :: nat)
      in if 65 \<le> n \<and> n \<le> 90 then char_of (n + 32) else c)"

definition lower :: "string \<Rightarrow> string" where
  "lower s = map lower_char s"

fun capitalize :: "string \<Rightarrow> string" where
  "capitalize [] = []"
| "capitalize (c # cs) = upper_char c # lower cs"

subsection \<open>The roster operations\<close>

text \<open>\<^verbatim>\<open>name.capitalize() in [i["name"] for i in students]\<close>\<close>

definition is_student_exists :: "string \<Rightarrow> student list \<Rightarrow> bool" where
  "is_student_exists n students = (capitalize n \<in> set (map name students))"

text \<open>
  \<^verbatim>\<open>add_new_student\<close> prints and returns when the check finds the name; otherwise it
  appends \<^verbatim>\<open>{"name": name, "grades": []}\<close>, with the name as it was passed.
\<close>

definition add_new_student :: "string \<Rightarrow> student list \<Rightarrow> out list \<times> student list" where
  "add_new_student n students =
     (if is_student_exists n students
      then ([Text ''Student already exists''], students)
      else ([], students @ [\<lparr>name = n, grades = []\<rparr>]))"

text \<open>
  \<^verbatim>\<open>add_grades\<close> scans the list for the first record whose name equals the argument
  (\<^verbatim>\<open>==\<close>, no case conversion), assigns its grades and returns; when the scan ends it
  raises \<^verbatim>\<open>ValueError("Student does not exist")\<close>.
\<close>

fun add_grades :: "string \<Rightarrow> int list \<Rightarrow> student list \<Rightarrow> (error + unit) \<times> student list" where
  "add_grades n gs [] = (Inl (ValueError ''Student does not exist''), [])"
| "add_grades n gs (s # ss) =
     (if n = name s then (Inr (), s\<lparr>grades := gs\<rparr> # ss)
      else (case add_grades n gs ss of (r, ss') \<Rightarrow> (r, s # ss')))"

subsection \<open>Arithmetic of the report\<close>

text \<open>
  \<^verbatim>\<open>a / b\<close> on two integers raises \<^verbatim>\<open>ZeroDivisionError\<close> when \<open>b\<close> is zero; otherwise
  it is the double nearest to the quotient, and \<^verbatim>\<open>OverflowError\<close> when that is out of
  range.
\<close>

definition int_truediv :: "int \<Rightarrow> int \<Rightarrow> error + pyfloat" where
  "int_truediv a b =
     (if b = 0 then Inl ZeroDivisionError
      else (case round_double (of_int a / of_int b) of
              Finite v \<Rightarrow> Inr (Finite v)
            | PosInf \<Rightarrow> Inl OverflowError
            | NegInf \<Rightarrow> Inl OverflowError
            | NaN \<Rightarrow> Inl OverflowError))"

text \<open>
  The conversion of an integer to a double, which \<^verbatim>\<open>float / int\<close> and the format
  \<^verbatim>\<open>:.1f\<close> of an integer make: the nearest double, and \<^verbatim>\<open>OverflowError\<close> when it is
  out of range.
\<close>

definition int_to_float :: "int \<Rightarrow> error + rat" where
  "int_to_float n =
     (case round_double (of_int n) of
        Finite v \<Rightarrow> Inr v
      | PosInf \<Rightarrow> Inl OverflowError
      | NegInf \<Rightarrow> Inl OverflowError
      | NaN \<Rightarrow> Inl OverflowError)"

text \<open>
  \<^verbatim>\<open>x / n\<close> for a double and an integer: the integer is converted, then a zero divisor
  raises \<^verbatim>\<open>ZeroDivisionError\<close>.
\<close>

definition float_truediv :: "pyfloat \<Rightarrow> int \<Rightarrow> error + pyfloat" where
  "float_truediv x n =
     (case int_to_float n of
        Inl e \<Rightarrow> Inl e
      | Inr b \<Rightarrow> if b = 0 then Inl ZeroDivisionError else Inr (float_div x b))"

text \<open>
  \<^verbatim>\<open>sum(xs)\<close> on a list of doubles starts from the integer 0 and adds the items from
  left to right, each addition rounded (CPython up to 3.11; from 3.12 on \<^verbatim>\<open>sum\<close> carries
  a correction term for the rounding errors, which is not modelled).
\<close>

definition float_sum :: "pyfloat list \<Rightarrow> pyfloat" where
  "float_sum xs = fold (\<lambda>x acc. float_add acc x) xs (Finite 0)"

text \<open>\<^verbatim>\<open>sum(student["grades"]) / len(student["grades"])\<close>\<close>

definition average :: "int list \<Rightarrow> error + pyfloat" where
  "average gs = int_truediv (sum_list gs) (int (length gs))"

text \<open>\<^verbatim>\<open>min\<close> and \<^verbatim>\<open>max\<close> raise \<^verbatim>\<open>ValueError\<close> on an empty list.\<close>

definition py_min :: "int list \<Rightarrow> error + int" where
  "py_min xs =
     (case xs of
        [] \<Rightarrow> Inl (ValueError ''min() arg is an empty sequence'')
      | x # ys \<Rightarrow> Inr (fold (\<lambda>y m. if y < m then y else m) ys x))"

definition py_max :: "int list \<Rightarrow> error + int" where
  "py_max xs =
     (case xs of
        [] \<Rightarrow> Inl (ValueError ''max() arg is an empty sequence'')
      | x # ys \<Rightarrow> Inr (fold (\<lambda>y m. if y > m then y else m) ys x))"

text \<open>
  \<^verbatim>\<open>max(xs, key=...)\<close> keeps the item it holds unless a later one has a strictly
  greater key.
\<close>

definition py_max_key :: "('a \<Rightarrow> pyfloat) \<Rightarrow> 'a list \<Rightarrow> error + 'a" where
  "py_max_key key xs =
     (case xs of
        [] \<Rightarrow> Inl (ValueError ''max() arg is an empty sequence'')
      | x # ys \<Rightarrow> Inr (fold (\<lambda>y best. if float_gt (key y) (key best) then y else best) ys x))"

subsection \<open>\<^verbatim>\<open>show_report\<close>\<close>

text \<open>
  The \<^verbatim>\<open>for\<close> loop of \<^verbatim>\<open>show_report\<close>, with its two accumulators and the lines
  printed so far. The handler catches \<^verbatim>\<open>ZeroDivisionError\<close> only; any other exception
  leaves the loop, with what was printed before it.
\<close>

fun report_loop ::
  "student list \<Rightarrow> int list \<Rightarrow> pyfloat list \<Rightarrow> out list
     \<Rightarrow> (error + int list \<times> pyfloat list) \<times> out list"
where
  "report_loop [] all_grades all_average_grades printed =
     (Inr (all_grades, all_average_grades), printed)"
| "report_loop (s # ss) all_grades all_average_grades printed =
     (case average (grades s) of
        Inr a \<Rightarrow>
          report_loop ss (all_grades @ grades s) (all_average_grades @ [a])
            (printed @ [StudentAverage (name s) a])
      | Inl e \<Rightarrow>
          if e = ZeroDivisionError
          then report_loop ss (all_grades @ grades s) all_average_grades
                 (printed @ [StudentNA (name s)])
          else (Inl e, printed))"

text \<open>
  The block under \<^verbatim>\<open>if all_grades:\<close>. The maximum is printed first; each of the two
  integers is converted to a double when it is formatted.
\<close>

definition min_max_lines :: "int list \<Rightarrow> out list \<Rightarrow> (error + unit) \<times> out list" where
  "min_max_lines all_grades printed =
     (if all_grades \<noteq> [] then
        (case py_min all_grades of
           Inl e \<Rightarrow> (Inl e, printed)
         | Inr min_grade \<Rightarrow>
             (case py_max all_grades of
                Inl e \<Rightarrow> (Inl e, printed)
              | Inr max_grade \<Rightarrow>
                  (case int_to_float max_grade of
                     Inl e \<Rightarrow> (Inl e, printed)
                   | Inr mx \<Rightarrow>
                       (case int_to_float min_grade of
                          Inl e \<Rightarrow> (Inl e, printed @ [MaxAverage (Finite mx)])
                        | Inr mn \<Rightarrow>
                            (Inr (), printed @ [MaxAverage (Finite mx), MinAverage (Finite mn)])))))
      else (Inr (), printed))"

text \<open>The block under \<^verbatim>\<open>if all_average_grades:\<close>.\<close>

definition overall_line :: "pyfloat list \<Rightarrow> out list \<Rightarrow> (error + unit) \<times> out list" where
  "overall_line all_average_grades printed =
     (if all_average_grades \<noteq> [] then
        (case float_truediv (float_sum all_average_grades) (int (length all_average_grades)) of
           Inl e \<Rightarrow> (Inl e, printed)
         | Inr a \<Rightarrow> (Inr (), printed @ [OverallAverage a]))
      else (Inr (), printed))"

definition show_report :: "student list \<Rightarrow> (error + unit) \<times> out list" where
  "show_report students =
     (case report_loop students [] [] [] of
        (Inl e, printed) \<Rightarrow> (Inl e, printed)
      | (Inr (all_grades, all_average_grades), printed) \<Rightarrow>
          (case min_max_lines all_grades printed of
             (Inl e, printed2) \<Rightarrow> (Inl e, printed2)
           | (Inr u, printed2) \<Rightarrow> overall_line all_average_grades printed2))"

subsection \<open>\<^verbatim>\<open>find_top_performer\<close>\<close>

text \<open>
  The loop that collects \<^verbatim>\<open>valid_students\<close>: a student with an empty grade list is
  skipped by the \<^verbatim>\<open>if\<close>; the handler catches \<^verbatim>\<open>ZeroDivisionError\<close> and
  \<^verbatim>\<open>TypeError\<close> and continues; any other exception leaves the function.
\<close>

fun valid_students_loop ::
  "student list \<Rightarrow> (string \<times> pyfloat) list \<Rightarrow> error + (string \<times> pyfloat) list"
where
  "valid_students_loop [] valid_students = Inr valid_students"
| "valid_students_loop (s # ss) valid_students =
     (if grades s \<noteq> [] then
        (case average (grades s) of
           Inr a \<Rightarrow> valid_students_loop ss (valid_students @ [(name s, a)])
         | Inl e \<Rightarrow>
             if e = ZeroDivisionError \<or> e = TypeError
             then valid_students_loop ss valid_students
             else Inl e)
      else valid_students_loop ss valid_students)"

definition find_top_performer :: "student list \<Rightarrow> (error + unit) \<times> out list" where
  "find_top_performer students =
     (case valid_students_loop students [] of
        Inl e \<Rightarrow> (Inl e, [])
      | Inr valid_students \<Rightarrow>
          if valid_students = []
          then (Inr (),
                [Text ''No top student found. Either no students added or no grades available.''])
          else (case py_max_key snd valid_students of
                  Inl e \<Rightarrow> (Inl e, [])
                | Inr top_student \<Rightarrow>
                    (Inr (), [TopPerformer (fst top_student) (snd top_student)])))"

subsection \<open>Reading grades\<close>

text \<open>
  Standard input is a list of events: a line typed at the prompt, or an interrupt that
  arrives while \<^verbatim>\<open>input\<close> waits. When the list is used up \<^verbatim>\<open>input\<close> raises
  \<^verbatim>\<open>EOFError\<close>, which no handler of the script catches. The prompt that
  \<^verbatim>\<open>input(msg)\<close> writes is left out of the printed lines.
\<close>

datatype event = Line string | KeyboardInterrupt

text \<open>
  \<^verbatim>\<open>user_input\<close> returns the line capitalized; after an interrupt it prints and
  calls itself again. A \<^verbatim>\<open>ValueError\<close> of \<^verbatim>\<open>input\<close>, handled alike, is not among
  the events.
\<close>

fun user_input :: "event list \<Rightarrow> (error + string) \<times> event list \<times> out list" where
  "user_input [] = (Inl EOFError, [], [])"
| "user_input (Line text # evs) = (Inr (capitalize text), evs, [])"
| "user_input (KeyboardInterrupt # evs) =
     (case user_input evs of
        (r, evs', printed) \<Rightarrow> (r, evs', Text ''Use menu for exit'' # printed))"

text \<open>Each successful read uses up at least one event: the loops below terminate.\<close>

lemma user_input_shorter:
  "user_input evs = (Inr t, evs', printed) \<Longrightarrow> length evs' < length evs"
  by (induction evs arbitrary: printed rule: user_input.induct) (auto split: prod.splits)

text \<open>
  The \<^verbatim>\<open>while True\<close> loop of \<^verbatim>\<open>input_grades\<close>. The conversion \<^verbatim>\<open>int(grade_input)\<close>
  is the parameter \<open>int_of\<close>; the handler catches \<^verbatim>\<open>ValueError\<close> only.
\<close>

function input_grades_loop ::
  "(string \<Rightarrow> error + int) \<Rightarrow> event list \<Rightarrow> int list \<Rightarrow> out list
     \<Rightarrow> (error + int list) \<times> event list \<times> out list"
where
  "input_grades_loop int_of evs gs printed =
     (case user_input evs of
        (Inl e, evs', p) \<Rightarrow> (Inl e, evs', printed @ p)
      | (Inr grade_input, evs', p) \<Rightarrow>
          if lower grade_input = ''done'' then (Inr gs, evs', printed @ p)
          else (case int_of grade_input of
                  Inr grade \<Rightarrow>
                    if 0 \<le> grade \<and> grade \<le> 100
                    then input_grades_loop int_of evs' (gs @ [grade]) (printed @ p)
                    else input_grades_loop int_of evs' gs
                           (printed @ p @ [Text ''Grade must be between 0 and 100. Please try again.''])
                | Inl (ValueError m) \<Rightarrow>
                    input_grades_loop int_of evs' gs
                      (printed @ p @ [Text (''Invalid grade. Please enter a number 0-100 or ''
                                             @ [CHR 0x27] @ ''done'' @ [CHR 0x27])])
                | Inl e \<Rightarrow> (Inl e, evs', printed @ p)))"
  by pat_completeness auto
termination
  by (relation "measure (\<lambda>(int_of, evs, gs, printed). length evs)")
     (auto dest: user_input_shorter [OF sym])

declare input_grades_loop.simps [simp del]

definition input_grades ::
  "(string \<Rightarrow> error + int) \<Rightarrow> event list \<Rightarrow> (error + int list) \<times> event list \<times> out list" where
  "input_grades int_of evs = input_grades_loop int_of evs [] []"

text \<open>
  \<^verbatim>\<open>int(s)\<close> on ASCII text: surrounding blanks (space, tab, line feed, vertical tab,
  form feed, carriage return) are dropped, one sign is allowed, the digits are decimal
  and may be separated by single underscores.
\<close>

definition is_space :: "char \<Rightarrow> bool" where
  "is_space c = (let n = (of_char c :: nat) in (9 \<le> n \<and> n \<le> 13) \<or> n = 32)"

definition is_digit :: "char \<Rightarrow> bool" where
  "is_digit c = (let n = (of_char c :: nat) in 48 \<le> n \<and> n \<le> 57)"

definition digit_val :: "char \<Rightarrow> int" where
  "digit_val c = int (of_char c) - 48"

definition strip :: "string \<Rightarrow> string" where
  "strip s = rev (dropWhile is_space (rev (dropWhile is_space s)))"

definition invalid_literal :: "error + int" where
  "invalid_literal = Inl (ValueError ''invalid literal for int() with base 10'')"

fun digits :: "string \<Rightarrow> int \<Rightarrow> error + int" where
  "digits [] acc = Inr acc"
| "digits (c # cs) acc =
     (if is_digit c then digits cs (10 * acc + digit_val c)
      else if c = CHR ''_'' then
        (case cs of
           [] \<Rightarrow> invalid_literal
         | d # ds \<Rightarrow> if is_digit d then digits cs acc else invalid_literal)
      else invalid_literal)"

definition unsigned :: "string \<Rightarrow> error + int" where
  "unsigned s =
     (case s of
        [] \<Rightarrow> invalid_literal
      | d # ds \<Rightarrow> if is_digit d then digits s 0 else invalid_literal)"

definition py_int :: "string \<Rightarrow> error + int" where
  "py_int s =
     (case strip s of
        [] \<Rightarrow> invalid_literal
      | c # cs \<Rightarrow>
          if c = CHR ''-'' then (case unsigned cs of Inl e \<Rightarrow> Inl e | Inr v \<Rightarrow> Inr (- v))
          else if c = CHR ''+'' then unsigned cs
          else unsigned (c # cs))"

subsection \<open>The command loop\<close>

lemma user_input_not_longer:
  "user_input evs = (r, evs', printed) \<Longrightarrow> length evs' \<le> length evs"
  by (induction evs arbitrary: printed rule: user_input.induct) (auto split: prod.splits)

lemma input_grades_loop_shorter:
  "input_grades_loop int_of evs gs printed = (r, evs', p) \<Longrightarrow> length evs' \<le> length evs"
proof (induction "length evs" arbitrary: evs gs printed rule: less_induct)
  case less
  obtain r1 evs1 p1 where ui: "user_input evs = (r1, evs1, p1)"
    by (cases "user_input evs") auto
  note run = less.prems [unfolded input_grades_loop.simps [of int_of evs gs printed] ui]
  show ?case
  proof (cases r1)
    case (Inl e)
    with run user_input_not_longer [OF ui] show ?thesis by simp
  next
    case (Inr grade_input)
    have lt: "length evs1 < length evs"
      using user_input_shorter ui Inr by blast
    have rec: "length evs' \<le> length evs"
      if "input_grades_loop int_of evs1 gs' printed' = (r, evs', p)" for gs' printed'
      using less.hyps [OF lt that] lt by simp
    from run Inr lt show ?thesis
      by (auto split: if_splits sum.splits error.splits intro: rec)
  qed
qed

text \<open>
  \<^verbatim>\<open>main\<close>: each round prints the menu, reads a choice and dispatches on it. The
  loop ends on choice 5 or on an exception; the second component is the roster it leaves.
\<close>

definition menu :: out where
  "menu = Text ''--- Student Grade Analyzer ---''"

function main_loop ::
  "(string \<Rightarrow> error + int) \<Rightarrow> event list \<Rightarrow> student list \<Rightarrow> out list
     \<Rightarrow> (error + unit) \<times> student list \<times> out list"
where
  "main_loop int_of evs students printed =
     (case user_input evs of
        (Inl e, evs1, p1) \<Rightarrow> (Inl e, students, printed @ menu # p1)
      | (Inr choice, evs1, p1) \<Rightarrow>
          if choice = ''1'' then
            (case user_input evs1 of
               (Inl e, evs2, p2) \<Rightarrow> (Inl e, students, printed @ menu # p1 @ p2)
             | (Inr student_name, evs2, p2) \<Rightarrow>
                 (case add_new_student student_name students of
                    (p3, students') \<Rightarrow>
                      main_loop int_of evs2 students' (printed @ menu # p1 @ p2 @ p3)))
          else if choice = ''2'' then
            (case user_input evs1 of
               (Inl e, evs2, p2) \<Rightarrow> (Inl e, students, printed @ menu # p1 @ p2)
             | (Inr student_name, evs2, p2) \<Rightarrow>
                 if \<not> is_student_exists student_name students
                 then main_loop int_of evs2 students
                        (printed @ menu # p1 @ p2 @ [Text ''Student does not exist''])
                 else
                   (case input_grades int_of evs2 of
                      (Inl e, evs3, p3) \<Rightarrow> (Inl e, students, printed @ menu # p1 @ p2 @ p3)
                    | (Inr gs, evs3, p3) \<Rightarrow>
                        (case add_grades student_name gs students of
                           (Inl e, students') \<Rightarrow>
                             (Inl e, students', printed @ menu # p1 @ p2 @ p3)
                         | (Inr u, students') \<Rightarrow>
                             main_loop int_of evs3 students' (printed @ menu # p1 @ p2 @ p3))))
          else if choice = ''3'' then
            (case show_report students of
               (Inl e, p2) \<Rightarrow> (Inl e, students, printed @ menu # p1 @ p2)
             | (Inr u, p2) \<Rightarrow> main_loop int_of evs1 students (printed @ menu # p1 @ p2))
          else if choice = ''4'' then
            (case find_top_performer students of
               (Inl e, p2) \<Rightarrow> (Inl e, students, printed @ menu # p1 @ p2)
             | (Inr u, p2) \<Rightarrow> main_loop int_of evs1 students (printed @ menu # p1 @ p2))
          else if choice = ''5'' then (Inr (), students, printed @ menu # p1)
          else main_loop int_of evs1 students
                 (printed @ menu # p1 @ [Text ''Invalid input. Please enter a number 1-5.'']))"
  by pat_completeness auto
termination
  apply (relation "measure (\<lambda>(int_of, evs, students, printed). length evs)")
       apply (auto dest!: user_input_shorter [OF sym] input_grades_loop_shorter [OF sym] simp: input_grades_def)
  done

declare main_loop.simps [simp del]

subsection \<open>Notions of the specification\<close>

text \<open>
  The arithmetic mean of a grade list, exact, and the line the report owes a student:
  the double nearest to the mean, or N/A.
\<close>

definition mean :: "int list \<Rightarrow> rat" where
  "mean gs = of_int (sum_list gs) / of_nat (length gs)"

definition student_line :: "student \<Rightarrow> out" where
  "student_line s =
     (if grades s = [] then StudentNA (name s)
      else StudentAverage (name s) (Finite (nearest_double (mean (grades s)))))"

definition graded :: "student list \<Rightarrow> student list" where
  "graded students = filter (\<lambda>s. grades s \<noteq> []) students"

text \<open>
  The students with at least one grade, in roster order, each with the double nearest to
  the mean of the grades.
\<close>

definition valid_students :: "student list \<Rightarrow> (string \<times> rat) list" where
  "valid_students students = map (\<lambda>s. (name s, nearest_double (mean (grades s)))) (graded students)"

definition graded_averages :: "student list \<Rightarrow> pyfloat list" where
  "graded_averages students = map (\<lambda>a. Finite (snd a)) (valid_students students)"




text \<open>Every stored grade lies in the inclusive range from 0 to 100.\<close>

definition grades_in_range :: "student list \<Rightarrow> bool" where
  "grades_in_range students =
     list_all (\<lambda>s. list_all (\<lambda>g. 0 \<le> g \<and> g \<le> 100) (grades s)) students"

text \<open>Every stored grade has a magnitude of at most \<open>B\<close>.\<close>

definition grades_within :: "int \<Rightarrow> student list \<Rightarrow> bool" where
  "grades_within B students =
     list_all (\<lambda>s. list_all (\<lambda>g. \<bar>g\<bar> \<le> B) (grades s)) students"

text \<open>Every stored name is in the form \<^verbatim>\<open>capitalize\<close> produces.\<close>

definition names_capitalized :: "student list \<Rightarrow> bool" where
  "names_capitalized students = list_all (\<lambda>s. capitalize (name s) = name s) students"

section \<open>Properties\<close>

subsection \<open>Case conversion\<close>

text \<open>On the text modelled here \<^verbatim>\<open>capitalize\<close> and \<^verbatim>\<open>lower\<close> are idempotent.\<close>

lemma upper_char_idem: "upper_char (upper_char c) = upper_char c"
  by (auto simp: upper_char_def Let_def)
lemma lower_char_idem: "lower_char (lower_char c) = lower_char c"
  by (auto simp: lower_char_def Let_def)
lemma lower_idem: "lower (lower s) = lower s"
  by (simp add: lower_def lower_char_idem)
lemma capitalize_idem: "capitalize (capitalize s) = capitalize s"
  by (cases s) (simp_all add: upper_char_idem lower_idem)

subsection \<open>Rounding to a double\<close>

text \<open>
  \<open>ilog2\<close> is the exponent of the greatest power of two below a positive rational;
  \<open>nearest_double\<close> is off by at most half a unit in the last place, and exact on the
  integers of magnitude up to \<^verbatim>\<open>2**53\<close>; \<open>round_double\<close> is finite up to magnitude
  \<^verbatim>\<open>2**1023\<close> and infinite from \<^verbatim>\<open>2**1024\<close> on.
\<close>

lemma pow2_pos: "0 < pow2 k"
  by (simp add: pow2_def)

lemma pow2_nat: "pow2 (int n) = 2 ^ n"
  by (simp add: pow2_def)

lemma pow2_add: "pow2 (j + k) = pow2 j * pow2 k"
proof -
  have "pow2 k = 2 powi k" for k
    by (simp add: pow2_def power_int_def field_simps)
  then show ?thesis
    by (simp add: power_int_add)
qed

lemma pow2_mono: "j \<le> k \<Longrightarrow> pow2 j \<le> pow2 k"
proof -
  assume "j \<le> k"
  then obtain n where k: "k = j + int n"
    by (metis nonneg_int_cases diff_ge_0_iff_ge add_diff_cancel_left' add.commute diff_add_cancel)
  have "pow2 j * 1 \<le> pow2 j * 2 ^ n"
    by (intro mult_left_mono) (simp_all add: pow2_pos less_imp_le)
  then show ?thesis
    by (simp add: k pow2_add pow2_nat)
qed

lemma pow2_less_imp: "pow2 j < pow2 k \<Longrightarrow> j < k"
  using pow2_mono [of k j] by (cases "j < k") auto

lemma ilog2_lower:
  assumes "0 < a"
  shows "pow2 (ilog2 a) \<le> a"
proof -
  obtain n d where q: "quotient_of a = (n, d)"
    by (cases "quotient_of a") auto
  then have d: "0 < d" and a: "a = of_int n / of_int d"
    using quotient_of_denom_pos quotient_of_div by blast+
  with assms have n: "0 < n"
    by (simp add: zero_less_divide_iff)
  let ?k = "bitlen n - bitlen d"
  show ?thesis
  proof (cases "pow2 ?k \<le> a")
    case True
    then show ?thesis by (simp add: ilog2_def q)
  next
    case False
    have bn: "(2::int) ^ nat (bitlen n - 1) \<le> n" and bd: "d < 2 ^ nat (bitlen d)"
      using bitlen_bounds [OF n] bitlen_bounds [OF d] by simp_all
    have n1: "1 \<le> bitlen n" and d1: "1 \<le> bitlen d"
      using n d by (auto simp: bitlen_alt_def)
    have "pow2 (bitlen n - 1) \<le> of_int n"
    proof -
      have "(of_int ((2::int) ^ nat (bitlen n - 1)) :: rat) \<le> of_int n"
        using bn by (simp only: of_int_le_iff)
      then show ?thesis using n1 by (simp add: pow2_def)
    qed
    moreover have "(of_int d :: rat) \<le> pow2 (bitlen d)"
    proof -
      have "(of_int d :: rat) \<le> of_int ((2::int) ^ nat (bitlen d))"
        using bd by (simp only: of_int_le_iff less_imp_le)
      then show ?thesis using d1 by (simp add: pow2_def)
    qed
    ultimately have "pow2 (bitlen n - 1) / pow2 (bitlen d) \<le> of_int n / of_int d"
      using d n pow2_pos [of "bitlen n - 1"] by (auto intro!: frac_le)
    moreover have "pow2 (?k - 1) * pow2 (bitlen d) = pow2 (bitlen n - 1)"
      by (simp flip: pow2_add)
    then have "pow2 (?k - 1) = pow2 (bitlen n - 1) / pow2 (bitlen d)"
      using pow2_pos [of "bitlen d"] by (simp add: field_simps)
    ultimately have "pow2 (?k - 1) \<le> a"
      by (simp add: a)
    with False show ?thesis by (simp add: ilog2_def q)
  qed
qed

lemma round_half_even_near: "\<bar>of_int (round_half_even x) - x\<bar> \<le> 1 / 2"
proof -
  have "0 \<le> x - of_int \<lfloor>x\<rfloor>" and "x - of_int \<lfloor>x\<rfloor> < 1"
    by linarith+
  then show ?thesis
    by (auto simp: round_half_even_def Let_def abs_le_iff)
qed

lemma round_half_even_of_int: "round_half_even (of_int k) = k"
  by (simp add: round_half_even_def)

lemma nearest_double_error:
  "\<bar>nearest_double q - q\<bar> \<le> pow2 (ulp_exponent q) / 2"
proof (cases "q = 0")
  case True
  then show ?thesis by (simp add: nearest_double_def pow2_pos less_imp_le)
next
  case False
  let ?u = "pow2 (ulp_exponent q)"
  let ?m = "round_half_even (q / ?u)"
  have u: "0 < ?u" by (rule pow2_pos)
  have "\<bar>of_int ?m - q / ?u\<bar> * ?u \<le> 1 / 2 * ?u"
    using round_half_even_near [of "q / ?u"] u by (intro mult_right_mono) simp_all
  moreover have "\<bar>of_int ?m - q / ?u\<bar> * ?u = \<bar>of_int ?m * ?u - q\<bar>"
  proof -
    have "\<bar>of_int ?m - q / ?u\<bar> * ?u = \<bar>(of_int ?m - q / ?u) * ?u\<bar>"
      using u by (simp add: abs_mult)
    also have "(of_int ?m - q / ?u) * ?u = of_int ?m * ?u - q"
      using u by (simp add: field_simps)
    finally show ?thesis .
  qed
  ultimately show ?thesis
    using False by (simp add: nearest_double_def)
qed

lemma ulp_exponent_le:
  assumes "q \<noteq> 0"
  shows "pow2 (ulp_exponent q) \<le> max \<bar>q\<bar> 1"
proof -
  have "pow2 (ilog2 \<bar>q\<bar> - 52) \<le> pow2 (ilog2 \<bar>q\<bar>)"
    by (rule pow2_mono) simp
  also have "\<dots> \<le> \<bar>q\<bar>"
    using assms by (intro ilog2_lower) simp
  finally have normal: "pow2 (ilog2 \<bar>q\<bar> - 52) \<le> \<bar>q\<bar>" .
  have "pow2 (- 1074) \<le> pow2 0"
    by (rule pow2_mono) simp
  then have tiny: "pow2 (- 1074) \<le> 1"
    by (simp add: pow2_def)
  show ?thesis
    using normal tiny by (auto simp: ulp_exponent_def max_def)
qed

lemma round_double_finite:
  assumes "\<bar>q\<bar> \<le> 2 ^ 1023"
  shows "round_double q = Finite (nearest_double q)"
proof (cases "q = 0")
  case True
  then show ?thesis by (simp add: round_double_def nearest_double_def)
next
  case False
  have "\<bar>nearest_double q - q\<bar> \<le> max \<bar>q\<bar> 1 / 2"
    using nearest_double_error [of q] ulp_exponent_le [OF False] by simp
  moreover have "max \<bar>q\<bar> 1 \<le> 2 ^ 1023"
    using assms by simp
  ultimately have "\<bar>nearest_double q\<bar> \<le> 2 ^ 1023 + 2 ^ 1023 / 2"
    using assms by linarith
  moreover have "(2::rat) ^ 1023 + 2 ^ 1023 / 2 < 2 ^ 1024"
    by simp
  ultimately have "\<bar>nearest_double q\<bar> < 2 ^ 1024"
    by (rule le_less_trans)
  then show ?thesis
    by (simp add: round_double_def Let_def abs_less_iff not_le)
qed

lemma nearest_double_of_int:
  assumes "\<bar>n\<bar> \<le> 2 ^ 53"
  shows "nearest_double (of_int n) = of_int n"
proof (cases "n = 0")
  case True
  then show ?thesis by (simp add: nearest_double_def)
next
  case False
  let ?e = "ilog2 \<bar>of_int n\<bar>"
  let ?p = "ulp_exponent (of_int n)"
  have low: "pow2 ?e \<le> \<bar>of_int n\<bar>"
    using False by (intro ilog2_lower) simp
  have top: "\<bar>of_int n :: rat\<bar> \<le> 2 ^ 53"
  proof -
    have "(of_int \<bar>n\<bar> :: rat) \<le> of_int (2 ^ 53)"
      using assms by (simp only: of_int_le_iff)
    then show ?thesis by simp
  qed
  have e53: "?e \<le> 53"
  proof (rule ccontr)
    assume "\<not> ?e \<le> 53"
    then have "pow2 54 \<le> pow2 ?e" by (intro pow2_mono) simp
    with low top show False by (simp add: pow2_def)
  qed
  have "\<exists>k. (of_int n :: rat) = of_int k * pow2 ?p"
  proof (cases "?e \<le> 52")
    case True
    then have p: "?p \<le> 0" by (simp add: ulp_exponent_def)
    then have "pow2 ?p * 2 ^ nat (- ?p) = 1"
      by (simp add: pow2_def)
    then have "(of_int n :: rat) = of_int (n * 2 ^ nat (- ?p)) * pow2 ?p"
      by (simp add: mult.assoc mult.commute)
    then show ?thesis by blast
  next
    case False
    with e53 have e: "?e = 53" by simp
    with low top have "\<bar>of_int n :: rat\<bar> = 2 ^ 53"
      by (simp add: pow2_def)
    then have "(of_int n :: rat) = 2 ^ 53 \<or> (of_int n :: rat) = - (2 ^ 53)"
      by (auto simp: abs_if split: if_splits)
    moreover have "?p = 1" by (simp add: ulp_exponent_def e)
    ultimately have "(of_int n :: rat) = of_int (2 ^ 52) * pow2 ?p \<or>
                     (of_int n :: rat) = of_int (- (2 ^ 52)) * pow2 ?p"
      by (simp add: pow2_def)
    then show ?thesis by blast
  qed
  then obtain k where k: "(of_int n :: rat) = of_int k * pow2 ?p" by blast
  define u where "u = pow2 ?p"
  have u: "0 < u" by (simp add: u_def pow2_pos)
  have kn: "of_int k * u = (of_int n :: rat)"
    by (rule k [symmetric, folded u_def])
  have "of_int k * u / u = (of_int k :: rat)"
    using u by simp
  then have "round_half_even (of_int k * u / u) = k"
    by (simp only: round_half_even_of_int)
  then have "round_half_even (of_int n / u) = k"
    by (simp only: kn)
  moreover have "nearest_double (of_int n) = of_int (round_half_even (of_int n / u)) * u"
    using False by (simp add: nearest_double_def u_def)
  ultimately have "nearest_double (of_int n) = of_int k * u"
    by (simp only:)
  then show ?thesis
    by (simp only: kn)
qed

lemma ilog2_upper:
  assumes "0 < a"
  shows "a < pow2 (ilog2 a + 1)"
proof -
  obtain n d where q: "quotient_of a = (n, d)"
    by (cases "quotient_of a") auto
  then have d: "0 < d" and a: "a = of_int n / of_int d"
    using quotient_of_denom_pos quotient_of_div by blast+
  with assms have n: "0 < n"
    by (simp add: zero_less_divide_iff)
  let ?k = "bitlen n - bitlen d"
  show ?thesis
  proof (cases "pow2 ?k \<le> a")
    case False
    then show ?thesis by (simp add: ilog2_def q)
  next
    case True
    have bn: "n < 2 ^ nat (bitlen n)" and bd: "(2::int) ^ nat (bitlen d - 1) \<le> d"
      using bitlen_bounds [OF n] bitlen_bounds [OF d] by simp_all
    have n1: "1 \<le> bitlen n" and d1: "1 \<le> bitlen d"
      using n d by (auto simp: bitlen_alt_def)
    have "(of_int n :: rat) < pow2 (bitlen n)"
    proof -
      have "(of_int n :: rat) < of_int ((2::int) ^ nat (bitlen n))"
        using bn by (simp only: of_int_less_iff)
      then show ?thesis using n1 by (simp add: pow2_def)
    qed
    moreover have "pow2 (bitlen d - 1) \<le> of_int d"
    proof -
      have "(of_int ((2::int) ^ nat (bitlen d - 1)) :: rat) \<le> of_int d"
        using bd by (simp only: of_int_le_iff)
      then show ?thesis using d1 by (simp add: pow2_def)
    qed
    ultimately have "of_int n / of_int d < pow2 (bitlen n) / pow2 (bitlen d - 1)"
      using d n pow2_pos [of "bitlen d - 1"] by (auto intro!: frac_less)
    moreover have "pow2 (?k + 1) * pow2 (bitlen d - 1) = pow2 (bitlen n)"
      by (simp flip: pow2_add)
    then have "pow2 (?k + 1) = pow2 (bitlen n) / pow2 (bitlen d - 1)"
      using pow2_pos [of "bitlen d - 1"] by (simp add: field_simps)
    ultimately have "a < pow2 (?k + 1)"
      by (simp add: a)
    with True show ?thesis by (simp add: ilog2_def q)
  qed
qed

lemma round_half_even_ge: "of_int m \<le> x \<Longrightarrow> m \<le> round_half_even x"
proof -
  assume "of_int m \<le> x"
  then have "m \<le> \<lfloor>x\<rfloor>"
    by (simp add: le_floor_iff)
  then show ?thesis
    by (auto simp: round_half_even_def Let_def)
qed

lemma nearest_double_overflow:
  assumes "2 ^ 1024 \<le> q"
  shows "2 ^ 1024 \<le> nearest_double q"
proof -
  have pos: "0 < q"
    using assms by (rule less_le_trans [rotated]) simp
  define l where "l = ilog2 q"
  have "pow2 1024 \<le> q"
    using assms by (simp add: pow2_def)
  also have "q < pow2 (l + 1)"
    unfolding l_def using pos by (rule ilog2_upper)
  finally have l: "1024 \<le> l"
    using pow2_less_imp [of 1024 "l + 1"] by simp
  then have e: "ulp_exponent q = l - 52"
    using pos by (simp add: ulp_exponent_def l_def)
  let ?u = "pow2 (l - 52)"
  have u: "0 < ?u" by (rule pow2_pos)
  have split: "pow2 l = 2 ^ 52 * ?u"
    using pow2_add [of 52 "l - 52"] by (simp add: pow2_def)
  have "pow2 l \<le> q"
    unfolding l_def using pos by (rule ilog2_lower)
  then have "2 ^ 52 \<le> q / ?u"
    using u by (simp add: split pos_le_divide_eq)
  then have "(of_int (2 ^ 52) :: rat) \<le> q / ?u"
    by simp
  then have "2 ^ 52 \<le> round_half_even (q / ?u)"
    by (rule round_half_even_ge)
  then have "(of_int (2 ^ 52) :: rat) \<le> of_int (round_half_even (q / ?u))"
    by (simp only: of_int_le_iff)
  then have "2 ^ 52 * ?u \<le> of_int (round_half_even (q / ?u)) * ?u"
    using u by (intro mult_right_mono) simp_all
  then have "pow2 l \<le> nearest_double q"
    using pos by (simp add: nearest_double_def e split)
  moreover have "pow2 1024 \<le> pow2 l"
    using l by (rule pow2_mono)
  ultimately show ?thesis
    by (simp add: pow2_def)
qed

lemma round_double_overflow: "2 ^ 1024 \<le> q \<Longrightarrow> round_double q = PosInf"
  using nearest_double_overflow [of q] by (simp add: round_double_def)



subsection \<open>The report\<close>

text \<open>
  When no grade has a magnitude above \<^verbatim>\<open>2**1023\<close> no division of the report
  overflows, and the report is the list of the student lines, the two extremes and the
  overall figure. A grade of \<^verbatim>\<open>2**1024\<close> or more makes the division raise
  \<^verbatim>\<open>OverflowError\<close>, which nothing catches.
\<close>

lemma sum_list_bound:
  "list_all (\<lambda>g. \<bar>g\<bar> \<le> B) gs \<Longrightarrow> \<bar>sum_list gs\<bar> \<le> B * int (length gs)"
  by (induction gs) (auto simp: algebra_simps)

lemma mean_bound:
  assumes "gs \<noteq> []" and "list_all (\<lambda>g. \<bar>g\<bar> \<le> B) gs"
  shows "\<bar>mean gs\<bar> \<le> of_int B"
proof -
  have n: "0 < (of_nat (length gs) :: rat)"
    using assms(1) by simp
  have "(of_int \<bar>sum_list gs\<bar> :: rat) \<le> of_int (B * int (length gs))"
    using sum_list_bound [OF assms(2)] by (simp only: of_int_le_iff)
  then have "\<bar>of_int (sum_list gs) :: rat\<bar> \<le> of_int B * of_nat (length gs)"
    by simp
  then have "\<bar>of_int (sum_list gs) :: rat\<bar> / of_nat (length gs) \<le> of_int B"
    using n by (simp add: pos_divide_le_eq)
  then show ?thesis
    using n by (simp add: mean_def)
qed

lemma average_eq:
  assumes "list_all (\<lambda>g. \<bar>g\<bar> \<le> 2 ^ 1023) gs"
  shows "average gs =
           (if gs = [] then Inl ZeroDivisionError else Inr (Finite (nearest_double (mean gs))))"
proof (cases "gs = []")
  case True
  then show ?thesis by (simp add: average_def int_truediv_def)
next
  case False
  have "\<bar>mean gs\<bar> \<le> of_int (2 ^ 1023)"
    using False assms by (rule mean_bound)
  then have "round_double (mean gs) = Finite (nearest_double (mean gs))"
    by (intro round_double_finite) simp
  then show ?thesis
    using False by (simp add: average_def int_truediv_def mean_def)
qed

lemma average_overflow: "2 ^ 1024 \<le> g \<Longrightarrow> average [g] = Inl OverflowError"
proof -
  assume "2 ^ 1024 \<le> g"
  then have "(of_int (2 ^ 1024) :: rat) \<le> of_int g"
    by (simp only: of_int_le_iff)
  then have "round_double (of_int g) = PosInf"
    by (intro round_double_overflow) simp
  then show ?thesis
    by (simp add: average_def int_truediv_def)
qed

lemma grades_within_Cons:
  "grades_within B (s # ss) = (list_all (\<lambda>g. \<bar>g\<bar> \<le> B) (grades s) \<and> grades_within B ss)"
  by (simp add: grades_within_def)

lemma report_loop_eq:
  "grades_within (2 ^ 1023) ss \<Longrightarrow>
   report_loop ss ag av pr =
     (Inr (ag @ concat (map grades ss),
           av @ map (\<lambda>s. Finite (nearest_double (mean (grades s)))) (graded ss)),
      pr @ map student_line ss)"
  by (induction ss arbitrary: ag av pr)
     (simp_all add: grades_within_Cons average_eq student_line_def graded_def)

lemma fold_min_eq: "fold (\<lambda>y m. if y < m then y else m) ys (x::int) = Min (set (x # ys))"
proof -
  have "(\<lambda>y m. if y < m then y else m) = (min :: int \<Rightarrow> int \<Rightarrow> int)"
    by (intro ext) (simp add: min_def)
  then show ?thesis by (simp only: Min.set_eq_fold)
qed

lemma fold_max_eq: "fold (\<lambda>y m. if y > m then y else m) ys (x::int) = Max (set (x # ys))"
proof -
  have "(\<lambda>y m. if y > m then y else m) = (max :: int \<Rightarrow> int \<Rightarrow> int)"
    by (intro ext) (simp add: max_def)
  then show ?thesis by (simp only: Max.set_eq_fold)
qed

lemma py_min_eq: "xs \<noteq> [] \<Longrightarrow> py_min xs = Inr (Min (set xs))"
  by (cases xs) (simp_all only: py_min_def list.case fold_min_eq, simp)

lemma py_max_eq: "xs \<noteq> [] \<Longrightarrow> py_max xs = Inr (Max (set xs))"
  by (cases xs) (simp_all only: py_max_def list.case fold_max_eq, simp)

lemma int_to_float_finite:
  "\<bar>n\<bar> \<le> 2 ^ 1023 \<Longrightarrow> int_to_float n = Inr (nearest_double (of_int n))"
proof -
  assume "\<bar>n\<bar> \<le> 2 ^ 1023"
  then have "(of_int \<bar>n\<bar> :: rat) \<le> of_int (2 ^ 1023)"
    by (simp only: of_int_le_iff)
  then have "round_double (of_int n) = Finite (nearest_double (of_int n))"
    by (intro round_double_finite) simp
  then show ?thesis
    by (simp add: int_to_float_def)
qed

lemma int_to_float_exact:
  assumes "\<bar>n\<bar> \<le> 2 ^ 53"
  shows "int_to_float n = Inr (of_int n)"
proof -
  have "\<bar>n\<bar> \<le> 2 ^ 1023"
    using assms by simp
  then show ?thesis
    using nearest_double_of_int [OF assms] by (simp add: int_to_float_finite)
qed

lemma Min_Max_bounded:
  assumes "xs \<noteq> []" and "list_all (\<lambda>g. \<bar>g\<bar> \<le> B) xs"
  shows "\<bar>Min (set xs)\<bar> \<le> B" and "\<bar>Max (set xs)\<bar> \<le> B"
proof -
  have "Min (set xs) \<in> set xs" and "Max (set xs) \<in> set xs"
    using assms(1) by (simp_all add: Min_in Max_in)
  with assms(2) show "\<bar>Min (set xs)\<bar> \<le> B" and "\<bar>Max (set xs)\<bar> \<le> B"
    by (simp_all add: list_all_iff)
qed

lemma min_max_lines_finite:
  assumes "list_all (\<lambda>g. \<bar>g\<bar> \<le> 2 ^ 1023) xs"
  shows "min_max_lines xs pr =
           (Inr (),
            pr @ (if xs = [] then []
                  else [MaxAverage (Finite (nearest_double (of_int (Max (set xs))))),
                        MinAverage (Finite (nearest_double (of_int (Min (set xs)))))]))"
proof (cases "xs = []")
  case True
  then show ?thesis by (simp add: min_max_lines_def)
next
  case False
  note b = Min_Max_bounded [OF False assms]
  show ?thesis
    using False
    by (simp add: min_max_lines_def py_min_eq py_max_eq int_to_float_finite [OF b(1)]
          int_to_float_finite [OF b(2)])
qed


lemma float_truediv_length:
  assumes "0 < n" and "n \<le> 2 ^ 53"
  shows "float_truediv x (int n) = Inr (float_div x (of_nat n))"
proof -
  have "int n \<le> int (2 ^ 53)"
    using assms(2) by (simp only: of_nat_le_iff)
  then have "\<bar>int n\<bar> \<le> 2 ^ 53"
    by simp
  then have "int_to_float (int n) = Inr (of_int (int n))"
    by (rule int_to_float_exact)
  then show ?thesis
    using assms(1) by (simp add: float_truediv_def)
qed

lemma overall_line_eq:
  assumes "length av \<le> 2 ^ 53"
  shows "overall_line av pr =
           (Inr (),
            pr @ (if av = [] then []
                  else [OverallAverage (float_div (float_sum av) (of_nat (length av)))]))"
proof (cases "av = []")
  case True
  then show ?thesis by (simp add: overall_line_def)
next
  case False
  then have "0 < length av" by simp
  from float_truediv_length [OF this assms] False show ?thesis
    by (simp add: overall_line_def)
qed



lemma grades_within_concat:
  "grades_within B students \<Longrightarrow> list_all (\<lambda>g. \<bar>g\<bar> \<le> B) (concat (map grades students))"
  by (induction students) (simp_all add: grades_within_def)

lemma grades_in_range_within: "grades_in_range students \<Longrightarrow> grades_within (2 ^ 53) students"
  by (fastforce simp: grades_in_range_def grades_within_def list_all_iff)

lemma graded_averages_eq:
  "graded_averages students = map (\<lambda>s. Finite (nearest_double (mean (grades s)))) (graded students)"
  by (simp add: graded_averages_def valid_students_def comp_def)

lemma show_report_loop:
  assumes "grades_within (2 ^ 1023) students"
  shows "show_report students =
           (case min_max_lines (concat (map grades students)) (map student_line students) of
              (Inl e, printed2) \<Rightarrow> (Inl e, printed2)
            | (Inr u, printed2) \<Rightarrow> overall_line (graded_averages students) printed2)"
  by (simp add: show_report_def report_loop_eq [OF assms] flip: graded_averages_eq)

lemma show_report_eq:
  assumes "grades_within (2 ^ 1023) students" and "length students \<le> 2 ^ 53"
  shows "show_report students =
     (Inr (),
      map student_line students
      @ (if concat (map grades students) = [] then []
         else [MaxAverage (Finite (nearest_double (of_int (Max (set (concat (map grades students))))))),
               MinAverage (Finite (nearest_double (of_int (Min (set (concat (map grades students)))))))])
      @ (if graded students = [] then []
         else [OverallAverage (float_div (float_sum (graded_averages students))
                                 (of_nat (length (graded students))))]))"
proof -
  have "length (graded_averages students) \<le> length students"
    by (simp add: graded_averages_eq graded_def)
  then have len: "length (graded_averages students) \<le> 2 ^ 53"
    using assms(2) by (rule le_trans)
  have empty: "(graded_averages students = []) = (graded students = [])"
    and count: "length (graded_averages students) = length (graded students)"
    by (simp_all add: graded_averages_eq)
  show ?thesis
    by (simp add: show_report_loop [OF assms(1)]
          min_max_lines_finite [OF grades_within_concat [OF assms(1)]]
          overall_line_eq [OF len] empty count)
qed







lemma show_report_overflow:
  "2 ^ 1024 \<le> g \<Longrightarrow> show_report [\<lparr>name = n, grades = [g]\<rparr>] = (Inl OverflowError, [])"
  by (simp add: show_report_def average_overflow)

subsection \<open>The top performer\<close>

text \<open>
  Under the same bound the loop of \<^verbatim>\<open>find_top_performer\<close> collects the students with
  grades, each with the double nearest to the mean, and \<^verbatim>\<open>max\<close> returns the first item
  whose key is greatest.
\<close>

lemma valid_students_loop_eq:
  "grades_within (2 ^ 1023) ss \<Longrightarrow>
   valid_students_loop ss v =
     Inr (v @ map (\<lambda>s. (name s, Finite (nearest_double (mean (grades s))))) (graded ss))"
  by (induction ss arbitrary: v) (simp_all add: grades_within_Cons average_eq graded_def)

lemma fold_max_key_first:
  fixes key :: "'a \<Rightarrow> rat"
  shows "\<exists>i<length (x # ys).
           fold (\<lambda>y best. if key y > key best then y else best) ys x = (x # ys) ! i \<and>
           (\<forall>j<length (x # ys). key ((x # ys) ! j) \<le> key ((x # ys) ! i)) \<and>
           (\<forall>j<i. key ((x # ys) ! j) < key ((x # ys) ! i))"
proof (induction ys rule: rev_induct)
  case Nil
  show ?case by simp
next
  case (snoc y ys)
  let ?f = "\<lambda>y best. if key y > key best then y else best"
  from snoc obtain i where i: "i < length (x # ys)"
    and best: "fold ?f ys x = (x # ys) ! i"
    and ub: "\<forall>j<length (x # ys). key ((x # ys) ! j) \<le> key ((x # ys) ! i)"
    and first: "\<forall>j<i. key ((x # ys) ! j) < key ((x # ys) ! i)"
    by blast
  have nth_old: "(x # ys @ [y]) ! j = (x # ys) ! j" if "j < length (x # ys)" for j
    using that by (metis append_Cons nth_append)
  have nth_new: "(x # ys @ [y]) ! length (x # ys) = y"
    by (metis append_Cons nth_append_length)
  show ?case
  proof (cases "key y > key ((x # ys) ! i)")
    case True
    have "fold ?f (ys @ [y]) x = y" using best True by simp
    moreover have "\<forall>j<length (x # ys @ [y]). key ((x # ys @ [y]) ! j) \<le> key y"
    proof (intro allI impI)
      fix j assume "j < length (x # ys @ [y])"
      then consider "j < length (x # ys)" | "j = length (x # ys)" by fastforce
      then show "key ((x # ys @ [y]) ! j) \<le> key y"
      proof cases
        case 1
        then show ?thesis using ub True nth_old [OF 1] by fastforce
      next
        case 2
        then show ?thesis using nth_new by simp
      qed
    qed
    moreover have "\<forall>j<length (x # ys). key ((x # ys @ [y]) ! j) < key y"
    proof (intro allI impI)
      fix j assume j: "j < length (x # ys)"
      then show "key ((x # ys @ [y]) ! j) < key y" using ub True nth_old [OF j] by fastforce
    qed
    ultimately show ?thesis
      using nth_new by (intro exI [of _ "length (x # ys)"]) simp
  next
    case False
    have "fold ?f (ys @ [y]) x = (x # ys @ [y]) ! i" using best False nth_old [OF i] by simp
    moreover have "\<forall>j<length (x # ys @ [y]). key ((x # ys @ [y]) ! j) \<le> key ((x # ys @ [y]) ! i)"
    proof (intro allI impI)
      fix j assume "j < length (x # ys @ [y])"
      then consider "j < length (x # ys)" | "j = length (x # ys)" by fastforce
      then show "key ((x # ys @ [y]) ! j) \<le> key ((x # ys @ [y]) ! i)"
      proof cases
        case 1
        then show ?thesis using ub nth_old [OF 1] nth_old [OF i] by simp
      next
        case 2
        then show ?thesis using nth_new False nth_old [OF i] by simp
      qed
    qed
    moreover have "\<forall>j<i. key ((x # ys @ [y]) ! j) < key ((x # ys @ [y]) ! i)"
    proof (intro allI impI)
      fix j assume j: "j < i"
      then have "j < length (x # ys)" using i by simp
      then show "key ((x # ys @ [y]) ! j) < key ((x # ys @ [y]) ! i)"
        using first j nth_old [OF i] nth_old [of j] by simp
    qed
    ultimately show ?thesis
      using i by (intro exI [of _ i]) simp
  qed
qed

lemma fold_float_gt_Finite:
  "fold (\<lambda>y best. if float_gt (snd y) (snd best) then y else best)
        (map (\<lambda>a. (fst a, Finite (snd a))) ys) (fst x, Finite (snd x))
   = (\<lambda>a. (fst a, Finite (snd a)))
       (fold (\<lambda>y best. if snd y > snd best then y else best) ys (x :: string \<times> rat))"
  by (induction ys arbitrary: x) simp_all

lemma py_max_key_first:
  fixes xs :: "(string \<times> rat) list"
  assumes "xs \<noteq> []"
  shows "\<exists>i<length xs.
           py_max_key snd (map (\<lambda>a. (fst a, Finite (snd a))) xs)
             = Inr (fst (xs ! i), Finite (snd (xs ! i))) \<and>
           (\<forall>j<length xs. snd (xs ! j) \<le> snd (xs ! i)) \<and>
           (\<forall>j<i. snd (xs ! j) < snd (xs ! i))"
proof -
  from assms obtain x ys where xs: "xs = x # ys" by (cases xs) auto
  have "py_max_key snd (map (\<lambda>a. (fst a, Finite (snd a))) xs)
          = Inr ((\<lambda>a. (fst a, Finite (snd a)))
                   (fold (\<lambda>y best. if snd y > snd best then y else best) ys x))"
    by (simp add: py_max_key_def xs fold_float_gt_Finite)
  then show ?thesis
    using fold_max_key_first [of x ys snd] unfolding xs by metis
qed

lemma find_top_performer_run:
  assumes "grades_within (2 ^ 1023) students"
  shows "find_top_performer students =
           (if valid_students students = []
            then (Inr (),
                  [Text ''No top student found. Either no students added or no grades available.''])
            else (case py_max_key snd (map (\<lambda>a. (fst a, Finite (snd a))) (valid_students students)) of
                    Inl e \<Rightarrow> (Inl e, [])
                  | Inr top_student \<Rightarrow>
                      (Inr (), [TopPerformer (fst top_student) (snd top_student)])))"
proof -
  have "valid_students_loop students []
          = Inr (map (\<lambda>a. (fst a, Finite (snd a))) (valid_students students))"
    by (simp add: valid_students_loop_eq [OF assms] valid_students_def comp_def)
  then show ?thesis
    by (simp add: find_top_performer_def)
qed

lemma find_top_performer_overflow:
  "2 ^ 1024 \<le> g \<Longrightarrow> find_top_performer [\<lparr>name = n, grades = [g]\<rparr>] = (Inl OverflowError, [])"
  by (simp add: find_top_performer_def average_overflow)

subsection \<open>Grades stay in range\<close>

text \<open>
  Every grade \<^verbatim>\<open>input_grades\<close> returns is the conversion of a typed line and passed
  the range check.
\<close>

lemma user_input_line:
  "user_input evs = (Inr t, evs', printed) \<Longrightarrow>
   \<exists>ln. Line ln \<in> set evs \<and> t = capitalize ln \<and> set evs' \<subseteq> set evs"
  by (induction evs arbitrary: printed rule: user_input.induct)
     (auto split: prod.splits)

lemma input_grades_loop_accepts:
  assumes "input_grades_loop int_of evs gs printed = (Inr res, evs', p)"
    and "list_all Q gs"
    and "\<And>ln g. Line ln \<in> set evs \<Longrightarrow> int_of (capitalize ln) = Inr g \<Longrightarrow>
           0 \<le> g \<Longrightarrow> g \<le> 100 \<Longrightarrow> Q g"
  shows "list_all Q res"
  using assms
proof (induction "length evs" arbitrary: evs gs printed rule: less_induct)
  case less
  obtain r1 evs1 p1 where ui: "user_input evs = (r1, evs1, p1)"
    by (cases "user_input evs") auto
  note run = less.prems(1) [unfolded input_grades_loop.simps [of int_of evs gs printed] ui]
  show ?case
  proof (cases r1)
    case (Inl e)
    with run show ?thesis by simp
  next
    case (Inr grade_input)
    have lt: "length evs1 < length evs"
      using user_input_shorter ui Inr by blast
    from user_input_line [OF ui [unfolded Inr]] obtain ln where
      ln: "Line ln \<in> set evs" "grade_input = capitalize ln" and sub: "set evs1 \<subseteq> set evs"
      by blast
    have rec: "list_all Q res"
      if "input_grades_loop int_of evs1 gs' printed' = (Inr res, evs', p)" and "list_all Q gs'"
      for gs' printed'
      using less.hyps [OF lt that] less.prems(3) sub by blast
    have accept: "Q g" if "int_of grade_input = Inr g" "0 \<le> g" "g \<le> 100" for g
      using less.prems(3) [OF ln(1)] that ln(2) by simp
    have grow: "list_all Q (gs @ [g])" if "int_of grade_input = Inr g" "0 \<le> g" "g \<le> 100" for g
      using accept [OF that] less.prems(2) by simp
    from run Inr less.prems(2) show ?thesis
      by (auto split: if_splits sum.splits error.splits intro: rec grow)
  qed
qed

lemma input_grades_loop_range:
  "input_grades_loop int_of evs gs printed = (Inr res, evs', p) \<Longrightarrow>
   list_all (\<lambda>g. 0 \<le> g \<and> g \<le> 100) gs \<Longrightarrow>
   list_all (\<lambda>g. 0 \<le> g \<and> g \<le> 100) res"
  by (rule input_grades_loop_accepts [where Q = "\<lambda>g. 0 \<le> g \<and> g \<le> 100"]) simp_all

lemma add_grades_range:
  "grades_in_range students \<Longrightarrow> list_all (\<lambda>g. 0 \<le> g \<and> g \<le> 100) gs \<Longrightarrow>
   grades_in_range (snd (add_grades n gs students))"
  by (induction students) (auto simp: grades_in_range_def split: prod.splits)

lemma add_new_student_range:
  "grades_in_range students \<Longrightarrow> grades_in_range (snd (add_new_student n students))"
  by (simp add: add_new_student_def grades_in_range_def)

text \<open>
  A property of the roster that adding a capitalized name and setting grades read by
  \<^verbatim>\<open>input_grades\<close> preserve holds after every run of the command loop.
\<close>

lemma user_input_capitalized:
  "user_input evs = (Inr t, evs', printed) \<Longrightarrow> capitalize t = t"
  by (induction evs arbitrary: printed rule: user_input.induct)
     (auto split: prod.splits simp: capitalize_idem)

lemma main_loop_invariant:
  assumes add: "\<And>n ss. P ss \<Longrightarrow> capitalize n = n \<Longrightarrow> P (snd (add_new_student n ss))"
    and set: "\<And>n gs ss. P ss \<Longrightarrow> list_all (\<lambda>g. 0 \<le> g \<and> g \<le> 100) gs \<Longrightarrow>
                P (snd (add_grades n gs ss))"
  shows "main_loop int_of evs students printed = (r, students', printed') \<Longrightarrow>
         P students \<Longrightarrow> P students'"
proof (induction "length evs" arbitrary: evs students printed rule: less_induct)
  case less
  obtain r1 evs1 p1 where ui: "user_input evs = (r1, evs1, p1)"
    by (cases "user_input evs") auto
  note run = less.prems(1) [unfolded main_loop.simps [of int_of evs students printed] ui]
  show ?case
  proof (cases r1)
    case (Inl e)
    with run less.prems(2) show ?thesis by simp
  next
    case (Inr choice)
    have lt1: "length evs1 < length evs"
      using user_input_shorter ui Inr by blast
    have rec: "P students'"
      if "main_loop int_of evs2 students2 printed2 = (r, students', printed')"
        and "length evs2 \<le> length evs1" and "P students2"
      for evs2 students2 printed2
      using less.hyps [OF _ that(1) that(3)] that(2) lt1 by simp
    consider (c1) "choice = ''1''" | (c2) "choice = ''2''" | (c3) "choice = ''3''"
      | (c4) "choice = ''4''" | (c5) "choice = ''5''"
      | (other) "choice \<notin> {''1'', ''2'', ''3'', ''4'', ''5''}"
      by blast
    then show ?thesis
    proof cases
      case c1
      obtain r2 evs2 p2 where ui2: "user_input evs1 = (r2, evs2, p2)"
        by (cases "user_input evs1") auto
      show ?thesis
      proof (cases r2)
        case (Inl e)
        with run Inr c1 ui2 less.prems(2) show ?thesis by simp
      next
        case r2: (Inr student_name)
        obtain p3 students3 where ans: "add_new_student student_name students = (p3, students3)"
          by (cases "add_new_student student_name students") auto
        have "capitalize student_name = student_name"
          using user_input_capitalized [OF ui2 [unfolded r2]] .
        then have "P students3"
          using add [OF less.prems(2), of student_name] ans by simp
        moreover have "length evs2 \<le> length evs1"
          using user_input_not_longer [OF ui2] .
        ultimately show ?thesis
          using run Inr c1 ui2 r2 ans by (auto intro: rec)
      qed
    next
      case c2
      obtain r2 evs2 p2 where ui2: "user_input evs1 = (r2, evs2, p2)"
        by (cases "user_input evs1") auto
      have le2: "length evs2 \<le> length evs1"
        using user_input_not_longer [OF ui2] .
      show ?thesis
      proof (cases r2)
        case (Inl e)
        with run Inr c2 ui2 less.prems(2) show ?thesis by simp
      next
        case r2: (Inr student_name)
        show ?thesis
        proof (cases "is_student_exists student_name students")
          case False
          with run Inr c2 ui2 r2 le2 less.prems(2) show ?thesis by (auto intro: rec)
        next
          case True
          obtain r3 evs3 p3 where ig: "input_grades int_of evs2 = (r3, evs3, p3)"
            by (cases "input_grades int_of evs2") auto
          have le3: "length evs3 \<le> length evs1"
            using input_grades_loop_shorter [OF ig [unfolded input_grades_def]] le2 by simp
          show ?thesis
          proof (cases r3)
            case (Inl e)
            with run Inr c2 ui2 r2 True ig less.prems(2) show ?thesis by simp
          next
            case r3: (Inr gs)
            have gs: "list_all (\<lambda>g. 0 \<le> g \<and> g \<le> 100) gs"
              using input_grades_loop_range [OF ig [unfolded input_grades_def r3]] by simp
            obtain r4 students4 where ag: "add_grades student_name gs students = (r4, students4)"
              by (cases "add_grades student_name gs students") auto
            have s4: "P students4"
              using set [OF less.prems(2) gs, of student_name] ag by simp
            from run Inr c2 ui2 r2 True ig r3 ag s4 le3 show ?thesis
              by (cases r4) (auto intro: rec)
          qed
        qed
      qed
    next
      case c3
      with run Inr less.prems(2) show ?thesis
        by (auto split: prod.splits sum.splits intro: rec)
    next
      case c4
      with run Inr less.prems(2) show ?thesis
        by (auto split: prod.splits sum.splits intro: rec)
    next
      case c5
      with run Inr less.prems(2) show ?thesis by simp
    next
      case other
      with run Inr less.prems(2) show ?thesis
        by (auto intro: rec)
    qed
  qed
qed

lemma main_loop_range:
  "main_loop int_of evs students printed = (r, students', printed') \<Longrightarrow>
   grades_in_range students \<Longrightarrow> grades_in_range students'"
  by (rule main_loop_invariant [where P = grades_in_range])
     (simp_all add: add_new_student_range add_grades_range)

lemma input_grades_typed:
  "input_grades int_of evs = (Inr gs, evs', p) \<Longrightarrow>
   list_all (\<lambda>g. 0 \<le> g \<and> g \<le> 100 \<and>
                  (\<exists>ln. Line ln \<in> set evs \<and> int_of (capitalize ln) = Inr g)) gs"
  unfolding input_grades_def
  by (rule input_grades_loop_accepts [where gs = "[]"]) auto

subsection \<open>Names in the command loop\<close>

text \<open>
  Every name the command loop stores went through \<^verbatim>\<open>user_input\<close>: the stored names
  stay capitalized and pairwise distinct.
\<close>

lemma add_grades_names: "map name (snd (add_grades n gs students)) = map name students"
  by (induction students) (auto split: prod.splits)

lemma add_grades_names_capitalized:
  "names_capitalized students \<Longrightarrow> names_capitalized (snd (add_grades n gs students))"
  using add_grades_names [of n gs students]
  by (simp add: names_capitalized_def list_all_iff) (metis (no_types, lifting) image_iff list.set_map)

lemma add_new_student_names_capitalized:
  "names_capitalized students \<Longrightarrow> capitalize n = n \<Longrightarrow>
   names_capitalized (snd (add_new_student n students))"
  by (simp add: add_new_student_def names_capitalized_def)

lemma add_new_student_distinct:
  "names_capitalized students \<Longrightarrow> distinct (map name students) \<Longrightarrow> capitalize n = n \<Longrightarrow>
   distinct (map name (snd (add_new_student n students)))"
  by (auto simp: add_new_student_def is_student_exists_def)

lemma main_loop_names:
  "main_loop int_of evs students printed = (r, students', printed') \<Longrightarrow>
   names_capitalized students \<and> distinct (map name students) \<Longrightarrow>
   names_capitalized students' \<and> distinct (map name students')"
  by (rule main_loop_invariant [where P = "\<lambda>ss. names_capitalized ss \<and> distinct (map name ss)"])
     (simp_all add: add_new_student_names_capitalized add_grades_names_capitalized
        add_grades_names add_new_student_distinct)

text \<open>
  On a roster whose names are capitalized the check is a case-insensitive lookup, a
  case variant of a stored name is refused, and a capitalized name that passes the check
  is found by \<^verbatim>\<open>add_grades\<close>.
\<close>

lemma is_student_exists_case_insensitive:
  assumes "names_capitalized students"
  shows "is_student_exists n students = (\<exists>s \<in> set students. capitalize (name s) = capitalize n)"
proof
  assume "is_student_exists n students"
  then obtain s where "s \<in> set students" and "name s = capitalize n"
    by (auto simp: is_student_exists_def)
  then show "\<exists>s \<in> set students. capitalize (name s) = capitalize n"
    by (metis capitalize_idem)
next
  note caps = assms
  assume "\<exists>s \<in> set students. capitalize (name s) = capitalize n"
  then obtain s where s: "s \<in> set students" and "capitalize (name s) = capitalize n"
    by blast
  with caps have "name s = capitalize n"
    by (simp add: names_capitalized_def list_all_iff)
  with s show "is_student_exists n students"
    unfolding is_student_exists_def by (metis image_eqI list.set_map)
qed

lemma add_new_student_case_variant:
  "names_capitalized students \<Longrightarrow> s \<in> set students \<Longrightarrow> capitalize n = capitalize (name s) \<Longrightarrow>
   add_new_student n students = ([Text ''Student already exists''], students)"
  by (auto simp: add_new_student_def is_student_exists_case_insensitive)

lemma add_grades_present:
  "n \<in> set (map name students) \<Longrightarrow> fst (add_grades n gs students) = Inr ()"
  by (induction students) (auto split: prod.splits)

lemma add_grades_after_check:
  "is_student_exists n students \<Longrightarrow> capitalize n = n \<Longrightarrow> fst (add_grades n gs students) = Inr ()"
  by (simp add: is_student_exists_def add_grades_present)

subsection \<open>Absence of a name\<close>

text \<open>
  When no stored name is a case variant of \<open>n\<close>, the check \<^verbatim>\<open>is_student_exists\<close>
  fails for \<open>n\<close> and no record is named \<open>n\<close>.
\<close>

lemma absent_case_insensitive:
  assumes "list_all (\<lambda>s. capitalize (name s) \<noteq> capitalize n) students"
  shows "\<not> is_student_exists n students" and "n \<notin> set (map name students)"
proof -
  from assms have no_variant: "capitalize (name s) \<noteq> capitalize n" if "s \<in> set students" for s
    using that by (simp add: list_all_iff)
  show "\<not> is_student_exists n students"
  proof
    assume "is_student_exists n students"
    then obtain s where "s \<in> set students" and "name s = capitalize n"
      by (auto simp: is_student_exists_def)
    then show False
      using no_variant [of s] by (simp add: capitalize_idem)
  qed
  show "n \<notin> set (map name students)"
    using no_variant by auto
qed

section \<open>The claims\<close>

subsection \<open>Setting grades\<close>

text \<open>
  C1. For every name \<open>n\<close> for which \<^verbatim>\<open>is_student_exists\<close> returns true,
  \<^verbatim>\<open>add_grades(n, gs)\<close> succeeds and replaces that student's grades with \<open>gs\<close>.
  The code does not do this: the check capitalizes the name it is given, the scan of
  \<^verbatim>\<open>add_grades\<close> compares it as it is. With the record \<open>Bob\<close> stored, the check
  accepts \<open>bob\<close> and \<^verbatim>\<open>add_grades\<close> raises for it.
\<close>

theorem add_grades_case_variant_not_found:
  "is_student_exists ''bob'' [\<lparr>name = ''Bob'', grades = []\<rparr>] \<and>
   add_grades ''bob'' [90] [\<lparr>name = ''Bob'', grades = []\<rparr>]
     = (Inl (ValueError ''Student does not exist''), [\<lparr>name = ''Bob'', grades = []\<rparr>])"
  by code_simp

text \<open>
  C4. For every name \<open>n\<close> that no record of the roster carries, \<^verbatim>\<open>add_grades(n, gs)\<close>
  raises \<^verbatim>\<open>ValueError("Student does not exist")\<close> and leaves every record as it was.
\<close>

theorem add_grades_absent:
  "n \<notin> set (map name students) \<Longrightarrow>
   add_grades n gs students = (Inl (ValueError ''Student does not exist''), students)"
  by (induction students) auto

theorem add_grades_absent_witness:
  "''Eve'' \<notin> set (map name [\<lparr>name = ''Bob'', grades = [50]\<rparr>, \<lparr>name = ''Ann'', grades = []\<rparr>]) \<and>
   add_grades ''Eve'' [90, 95] [\<lparr>name = ''Bob'', grades = [50]\<rparr>, \<lparr>name = ''Ann'', grades = []\<rparr>]
     = (Inl (ValueError ''Student does not exist''),
        [\<lparr>name = ''Bob'', grades = [50]\<rparr>, \<lparr>name = ''Ann'', grades = []\<rparr>])"
  using add_grades_absent [of "''Eve''" "[\<lparr>name = ''Bob'', grades = [50]\<rparr>, \<lparr>name = ''Ann'', grades = []\<rparr>]" "[90, 95]"]
  by simp

text \<open>
  C5. \<^verbatim>\<open>add_grades\<close> overwrites: the first record \<open>s\<close> carrying the name, whatever
  grades it held, is afterwards the record of that name with exactly the grades \<open>g\<close>;
  every other record, and the order of the records, is unchanged.
\<close>

theorem add_grades_overwrites:
  "name s \<notin> set (map name pre) \<Longrightarrow>
   add_grades (name s) g (pre @ s # post) = (Inr (), pre @ \<lparr>name = name s, grades = g\<rparr> # post)"
  by (induction pre) auto

theorem add_grades_overwrites_witness:
  "name \<lparr>name = ''Bob'', grades = [50, 60]\<rparr> \<notin> set (map name [\<lparr>name = ''Ann'', grades = [1]\<rparr>]) \<and>
   add_grades ''Bob'' [90] [\<lparr>name = ''Ann'', grades = [1]\<rparr>, \<lparr>name = ''Bob'', grades = [50, 60]\<rparr>, \<lparr>name = ''Cy'', grades = [2]\<rparr>]
     = (Inr (), [\<lparr>name = ''Ann'', grades = [1]\<rparr>, \<lparr>name = ''Bob'', grades = [90]\<rparr>, \<lparr>name = ''Cy'', grades = [2]\<rparr>])"
  using add_grades_overwrites [of "\<lparr>name = ''Bob'', grades = [50, 60]\<rparr>" "[\<lparr>name = ''Ann'', grades = [1]\<rparr>]" "[90]" "[\<lparr>name = ''Cy'', grades = [2]\<rparr>]"]
  by simp

text \<open>
  C3. The claim as stated, that \<^verbatim>\<open>add_grades\<close> rejects a list holding a grade outside
  0..100, fails: it stores the list it is given.
\<close>

theorem add_grades_stores_out_of_range:
  "add_grades ''Bob'' [101, -1] [\<lparr>name = ''Bob'', grades = []\<rparr>]
     = (Inr (), [\<lparr>name = ''Bob'', grades = [101, -1]\<rparr>])"
  by simp

text \<open>
  C3, amended. The range check is made where grades are read: whatever is typed and
  however \<^verbatim>\<open>int\<close> converts it, every grade \<^verbatim>\<open>input_grades\<close> returns is within
  0..100 and is the conversion of a typed line, and a run of the command loop that starts
  from a roster whose grades are within 0..100 ends with such a roster.
\<close>

theorem grades_enter_in_range:
  "(input_grades int_of typed = (Inr gs, rest, p) \<longrightarrow>
      list_all (\<lambda>g. 0 \<le> g \<and> g \<le> 100 \<and>
                     (\<exists>ln. Line ln \<in> set typed \<and> int_of (capitalize ln) = Inr g)) gs) \<and>
   (main_loop int_of evs students printed = (r, students', printed') \<longrightarrow>
      grades_in_range students \<longrightarrow> grades_in_range students')"
  using input_grades_typed main_loop_range by blast

theorem grades_enter_in_range_witness:
  "input_grades py_int [Line ''90'', Line ''101'', Line ''abc'', Line ''-1'', Line ''done'']
     = (Inr [90], [],
        [Text ''Grade must be between 0 and 100. Please try again.'',
         Text (''Invalid grade. Please enter a number 0-100 or '' @ [CHR 0x27] @ ''done'' @ [CHR 0x27]),
         Text ''Grade must be between 0 and 100. Please try again.'']) \<and>
   list_all (\<lambda>g. 0 \<le> g \<and> g \<le> 100) [90 :: int] \<and>
   grades_in_range [] \<and>
   fst (snd (main_loop py_int
               [Line ''1'', Line ''bob'', Line ''2'', Line ''BOB'', Line ''101'', Line ''90'',
                Line ''done'', Line ''5''] [] []))
     = [\<lparr>name = ''Bob'', grades = [90]\<rparr>] \<and>
   grades_in_range [\<lparr>name = ''Bob'', grades = [90]\<rparr>]"
proof -
  let ?typed = "[Line ''90'', Line ''101'', Line ''abc'', Line ''-1'', Line ''done'']"
  let ?session = "[Line ''1'', Line ''bob'', Line ''2'', Line ''BOB'', Line ''101'', Line ''90'',
                   Line ''done'', Line ''5'']"
  let ?run = "main_loop py_int ?session [] []"
  have read: "input_grades py_int ?typed
     = (Inr [90], [],
        [Text ''Grade must be between 0 and 100. Please try again.'',
         Text (''Invalid grade. Please enter a number 0-100 or '' @ [CHR 0x27] @ ''done'' @ [CHR 0x27]),
         Text ''Grade must be between 0 and 100. Please try again.''])"
    by code_simp
  have start: "grades_in_range []"
    by (simp add: grades_in_range_def)
  have final: "fst (snd ?run) = [\<lparr>name = ''Bob'', grades = [90]\<rparr>]"
    by code_simp
  have run: "?run = (fst ?run, fst (snd ?run), snd (snd ?run))"
    by simp
  note at_run = grades_enter_in_range
    [where int_of = py_int and typed = ?typed and gs = "[90]" and evs = ?session
       and students = "[]" and printed = "[]" and r = "fst ?run"
       and students' = "fst (snd ?run)" and printed' = "snd (snd ?run)"]
  from at_run have "list_all (\<lambda>g. 0 \<le> g \<and> g \<le> 100 \<and>
                      (\<exists>ln. Line ln \<in> set ?typed \<and> py_int (capitalize ln) = Inr g)) [90 :: int]"
    using read by blast
  then have "list_all (\<lambda>g. 0 \<le> g \<and> g \<le> 100) [90 :: int]"
    by simp
  moreover from at_run have "grades_in_range (fst (snd ?run))"
    using run start by blast
  ultimately show ?thesis
    using read start final by simp
qed

subsection \<open>Adding a student\<close>

text \<open>
  C2. Re-adding a name that is present, under any case variant, leaves the roster
  unchanged and reports a duplicate. The code does not do this for a stored name that is
  not in capitalized form: the check looks for the capitalized name among the stored
  names, and \<^verbatim>\<open>add_new_student\<close> stores the name as passed. Adding \<open>bob\<close> twice
  yields two records.
\<close>

theorem add_new_student_duplicate_added:
  "add_new_student ''bob'' [] = ([], [\<lparr>name = ''bob'', grades = []\<rparr>]) \<and>
   add_new_student ''bob'' [\<lparr>name = ''bob'', grades = []\<rparr>]
     = ([], [\<lparr>name = ''bob'', grades = []\<rparr>, \<lparr>name = ''bob'', grades = []\<rparr>]) \<and>
   add_new_student ''BOB'' [\<lparr>name = ''bob'', grades = []\<rparr>]
     = ([], [\<lparr>name = ''bob'', grades = []\<rparr>, \<lparr>name = ''BOB'', grades = []\<rparr>])"
  by code_simp

text \<open>
  C10. When the check \<^verbatim>\<open>is_student_exists\<close> does not find the name,
  \<^verbatim>\<open>add_new_student\<close> appends one record with that name and no grades at the end of
  the roster, prints nothing, and leaves the records before it as they were.
\<close>

theorem add_new_student_appends:
  "\<not> is_student_exists n students \<Longrightarrow>
   add_new_student n students = ([], students @ [\<lparr>name = n, grades = []\<rparr>])"
  by (simp add: add_new_student_def)

theorem add_new_student_appends_witness:
  "\<not> is_student_exists ''ann'' [\<lparr>name = ''Bob'', grades = [50]\<rparr>] \<and>
   add_new_student ''ann'' [\<lparr>name = ''Bob'', grades = [50]\<rparr>]
     = ([], [\<lparr>name = ''Bob'', grades = [50]\<rparr>, \<lparr>name = ''ann'', grades = []\<rparr>])"
proof -
  have absent: "\<not> is_student_exists ''ann'' [\<lparr>name = ''Bob'', grades = [50]\<rparr>]"
    by code_simp
  from add_new_student_appends [OF absent] absent show ?thesis by simp
qed

subsection \<open>The report\<close>

text \<open>
  C6. The claim as stated, that the figure reported for a student with grades equals
  the arithmetic mean of the grades, fails: the figure is the double that \<^verbatim>\<open>/\<close>
  returns. For the grades 0, 0, 1 the mean is 1/3 and the report carries the double
  nearest to it, which is \<^verbatim>\<open>6004799503160661 / 2**54\<close>. For the single grade
  \<^verbatim>\<open>10**400\<close> the division raises \<^verbatim>\<open>OverflowError\<close> and the report ends with no
  figure printed.
\<close>

theorem show_report_average_not_mean:
  "(\<exists>rest. show_report [\<lparr>name = ''A'', grades = [0, 0, 1]\<rparr>]
      = (Inr (), StudentAverage ''A'' (Finite (6004799503160661 / 18014398509481984)) # rest)) \<and>
   mean [0, 0, 1] = 1 / 3 \<and>
   (6004799503160661 / 18014398509481984 :: rat) \<noteq> 1 / 3 \<and>
   show_report [\<lparr>name = ''A'', grades = [10 ^ 400]\<rparr>] = (Inl OverflowError, [])"
proof -
  let ?roster = "[\<lparr>name = ''A'', grades = [0, 0, 1]\<rparr>]"
  have bounded: "grades_within (2 ^ 1023) ?roster"
    by (simp add: grades_within_def)
  have short: "length ?roster \<le> 2 ^ 53"
    by simp
  have lines: "map student_line ?roster
                 = [StudentAverage ''A'' (Finite (6004799503160661 / 18014398509481984))]"
    by code_simp
  have "\<exists>rest. show_report ?roster
          = (Inr (), StudentAverage ''A'' (Finite (6004799503160661 / 18014398509481984)) # rest)"
    unfolding show_report_eq [OF bounded short] lines by simp
  moreover have "(2::int) ^ 1024 \<le> 10 ^ 400"
    by simp
  then have "show_report [\<lparr>name = ''A'', grades = [10 ^ 400]\<rparr>] = (Inl OverflowError, [])"
    by (rule show_report_overflow)
  ultimately show ?thesis
    by (simp add: mean_def)
qed

text \<open>
  C6, amended. When every grade has a magnitude of at most \<^verbatim>\<open>2**1023\<close> and the roster
  has at most \<^verbatim>\<open>2**53\<close> students, \<^verbatim>\<open>show_report\<close> returns without an exception, and
  its first lines are, student by student in roster order, the double nearest to the
  arithmetic mean of the student's grades (the mean itself when it is a double, as 80 for
  70, 80, 90), or N/A for a student with no grades.
\<close>

theorem show_report_student_averages:
  "grades_within (2 ^ 1023) students \<Longrightarrow> length students \<le> 2 ^ 53 \<Longrightarrow>
   \<exists>rest. show_report students = (Inr (), map student_line students @ rest)"
  by (simp add: show_report_eq)

theorem show_report_student_averages_witness:
  "grades_within (2 ^ 1023) [\<lparr>name = ''Ann'', grades = [70, 80, 90]\<rparr>, \<lparr>name = ''Bob'', grades = []\<rparr>] \<and>
   length [\<lparr>name = ''Ann'', grades = [70, 80, 90]\<rparr>, \<lparr>name = ''Bob'', grades = []\<rparr>] \<le> 2 ^ 53 \<and>
   (\<exists>rest. show_report [\<lparr>name = ''Ann'', grades = [70, 80, 90]\<rparr>, \<lparr>name = ''Bob'', grades = []\<rparr>]
      = (Inr (), [StudentAverage ''Ann'' (Finite 80), StudentNA ''Bob''] @ rest))"
proof -
  let ?roster = "[\<lparr>name = ''Ann'', grades = [70, 80, 90]\<rparr>, \<lparr>name = ''Bob'', grades = []\<rparr>]"
  have bounded: "grades_within (2 ^ 1023) ?roster"
    by (simp add: grades_within_def)
  have short: "length ?roster \<le> 2 ^ 53"
    by simp
  have lines: "map student_line ?roster = [StudentAverage ''Ann'' (Finite 80), StudentNA ''Bob'']"
    by code_simp
  from show_report_student_averages [OF bounded short] bounded short show ?thesis
    by (simp only: lines)
qed






subsection \<open>The top performer\<close>

text \<open>
  C9. The claim as stated, with the average of a student being the arithmetic mean of
  the grades, fails: the averages compared are doubles. The integer \<^verbatim>\<open>2**53 + 1\<close> is
  not a double: student B with that one grade has the greater mean and the same double
  as student A with the grade \<^verbatim>\<open>2**53\<close>, and the code names A. For the single grade
  \<^verbatim>\<open>10**400\<close> the division raises \<^verbatim>\<open>OverflowError\<close> and nothing is printed.
\<close>

theorem find_top_performer_rounded_tie:
  "find_top_performer [\<lparr>name = ''A'', grades = [9007199254740992]\<rparr>,
                       \<lparr>name = ''B'', grades = [9007199254740993]\<rparr>]
     = (Inr (), [TopPerformer ''A'' (Finite 9007199254740992)]) \<and>
   mean [9007199254740992] < mean [9007199254740993] \<and>
   find_top_performer [\<lparr>name = ''A'', grades = [10 ^ 400]\<rparr>] = (Inl OverflowError, [])"
proof -
  let ?roster = "[\<lparr>name = ''A'', grades = [9007199254740992]\<rparr>,
                  \<lparr>name = ''B'', grades = [9007199254740993]\<rparr>]"
  have bounded: "grades_within (2 ^ 1023) ?roster"
    by (simp add: grades_within_def)
  have valid: "valid_students ?roster = [(''A'', 9007199254740992), (''B'', 9007199254740992)]"
    by code_simp
  have "find_top_performer ?roster = (Inr (), [TopPerformer ''A'' (Finite 9007199254740992)])"
    unfolding find_top_performer_run [OF bounded] valid
    by (simp add: py_max_key_def)
  moreover have "(2::int) ^ 1024 \<le> 10 ^ 400"
    by simp
  then have "find_top_performer [\<lparr>name = ''A'', grades = [10 ^ 400]\<rparr>] = (Inl OverflowError, [])"
    by (rule find_top_performer_overflow)
  ultimately show ?thesis
    by (simp add: mean_def)
qed

text \<open>
  C9, amended. When every grade has a magnitude of at most \<^verbatim>\<open>2**1023\<close>,
  \<^verbatim>\<open>find_top_performer\<close> returns without an exception. With no student with grades it
  prints the line that no top student was found. Otherwise it prints the name and the
  average of one student with grades, the average of a student being the double nearest
  to the mean of the grades: that double is at least that of every student with grades
  and greater than that of every such student earlier in the roster. For the grade lists
  A: [90], B: [95], C: [] it prints B with 95.
\<close>

theorem find_top_performer_first_max:
  "grades_within (2 ^ 1023) students \<Longrightarrow>
   (valid_students students = [] \<longrightarrow>
      find_top_performer students =
        (Inr (), [Text ''No top student found. Either no students added or no grades available.''])) \<and>
   (valid_students students \<noteq> [] \<longrightarrow>
      (\<exists>i<length (valid_students students).
         find_top_performer students =
           (Inr (), [TopPerformer (fst (valid_students students ! i))
                       (Finite (snd (valid_students students ! i)))]) \<and>
         (\<forall>j<length (valid_students students).
            snd (valid_students students ! j) \<le> snd (valid_students students ! i)) \<and>
         (\<forall>j<i. snd (valid_students students ! j) < snd (valid_students students ! i))))"
proof (cases "valid_students students = []")
  assume "grades_within (2 ^ 1023) students"
  note run = find_top_performer_run [OF this]
  {
    case True
    with run show ?thesis by simp
  next
    case False
    from py_max_key_first [OF False] obtain i where
      i: "i < length (valid_students students)"
      and top: "py_max_key snd (map (\<lambda>a. (fst a, Finite (snd a))) (valid_students students))
                  = Inr (fst (valid_students students ! i), Finite (snd (valid_students students ! i)))"
      and rest: "\<forall>j<length (valid_students students).
                   snd (valid_students students ! j) \<le> snd (valid_students students ! i)"
                "\<forall>j<i. snd (valid_students students ! j) < snd (valid_students students ! i)"
      by blast
    have "find_top_performer students =
            (Inr (), [TopPerformer (fst (valid_students students ! i))
                        (Finite (snd (valid_students students ! i)))])"
      using False by (simp add: run top)
    with i rest False show ?thesis by blast
  }
qed

theorem find_top_performer_first_max_witness:
  "grades_within (2 ^ 1023) [\<lparr>name = ''A'', grades = [90]\<rparr>, \<lparr>name = ''B'', grades = [95]\<rparr>,
                             \<lparr>name = ''C'', grades = []\<rparr>] \<and>
   valid_students [\<lparr>name = ''A'', grades = [90]\<rparr>, \<lparr>name = ''B'', grades = [95]\<rparr>,
                   \<lparr>name = ''C'', grades = []\<rparr>] \<noteq> [] \<and>
   find_top_performer [\<lparr>name = ''A'', grades = [90]\<rparr>, \<lparr>name = ''B'', grades = [95]\<rparr>,
                       \<lparr>name = ''C'', grades = []\<rparr>]
     = (Inr (), [TopPerformer ''B'' (Finite 95)]) \<and>
   grades_within (2 ^ 1023) [\<lparr>name = ''C'', grades = []\<rparr>] \<and>
   valid_students [\<lparr>name = ''C'', grades = []\<rparr>] = [] \<and>
   find_top_performer [\<lparr>name = ''C'', grades = []\<rparr>]
     = (Inr (), [Text ''No top student found. Either no students added or no grades available.'']) \<and>
   find_top_performer [\<lparr>name = ''A'', grades = [90]\<rparr>, \<lparr>name = ''B'', grades = [80, 100]\<rparr>]
     = (Inr (), [TopPerformer ''A'' (Finite 90)])"
proof -
  let ?abc = "[\<lparr>name = ''A'', grades = [90]\<rparr>, \<lparr>name = ''B'', grades = [95]\<rparr>,
               \<lparr>name = ''C'', grades = []\<rparr>]"
  let ?tie = "[\<lparr>name = ''A'', grades = [90]\<rparr>, \<lparr>name = ''B'', grades = [80, 100]\<rparr>]"
  let ?none = "[\<lparr>name = ''C'', grades = []\<rparr>]"
  have b_abc: "grades_within (2 ^ 1023) ?abc" and b_tie: "grades_within (2 ^ 1023) ?tie"
    and b_none: "grades_within (2 ^ 1023) ?none"
    by (simp_all add: grades_within_def)
  have v: "valid_students ?abc = [(''A'', 90), (''B'', 95)]"
    by code_simp
  have t: "valid_students ?tie = [(''A'', 90), (''B'', 90)]"
    by code_simp
  have c: "valid_students ?none = []"
    by (simp add: valid_students_def graded_def)
  have "find_top_performer ?abc = (Inr (), [TopPerformer ''B'' (Finite 95)])"
    using find_top_performer_first_max [OF b_abc] unfolding v
    by (auto simp: less_Suc_eq numeral_2_eq_2)
  moreover have "find_top_performer ?tie = (Inr (), [TopPerformer ''A'' (Finite 90)])"
    using find_top_performer_first_max [OF b_tie] unfolding t
    by (auto simp: less_Suc_eq numeral_2_eq_2)
  moreover have "find_top_performer ?none
     = (Inr (), [Text ''No top student found. Either no students added or no grades available.''])"
    using find_top_performer_first_max [OF b_none] c by blast
  ultimately show ?thesis
    using v c b_abc b_none by simp
qed

end
